theory Spec2Isabelle
  imports Main "HOL-Library.Sublist"
begin

section \<open>The state machine notebook (projects/2-state-machines/Hess.ipynb)\<close>

text \<open>
  The notebook defines a class \<^verbatim>\<open>StateMachine\<close> (a deterministic finite automaton with a
  mutable current state) and the functions \<^verbatim>\<open>check\<close>, \<^verbatim>\<open>sample\<close> and \<^verbatim>\<open>sample2\<close> over it.
  The embedding keeps the source's data: state identifiers and symbols are Python strings,
  the transition system is a dict of dicts, and every method that can raise returns the
  error as a value. Methods that mutate the machine return the machine as it is left,
  also when they raise.
\<close>

subsection \<open>Python dicts\<close>

text \<open>
  A Python dict keeps its keys in insertion order and iterates over them in that order
  (the language guarantees it from version 3.7 on; the notebook's printed lists come from
  an older interpreter and are in another order, so the properties of the lists that
  \<^verbatim>\<open>sample\<close> returns are stated on their sets of elements).
  It is an association list; \<open>dict_set\<close> is the assignment \<^verbatim>\<open>d[k] = v\<close>, which
  overwrites the value of a key that is present (at its position) and appends a new key.
\<close>

type_synonym ('k, 'v) dict = "('k \<times> 'v) list"

definition dict_get :: "('k, 'v) dict \<Rightarrow> 'k \<Rightarrow> 'v option" where
  "dict_get d k = map_of d k"

definition dict_contains :: "('k, 'v) dict \<Rightarrow> 'k \<Rightarrow> bool" where
  "dict_contains d k = (map_of d k \<noteq> None)"

definition dict_keys :: "('k, 'v) dict \<Rightarrow> 'k list" where
  "dict_keys d = map fst d"

fun dict_set :: "('k, 'v) dict \<Rightarrow> 'k \<Rightarrow> 'v \<Rightarrow> ('k, 'v) dict" where
  "dict_set [] k v = [(k, v)]"
| "dict_set ((k', v') # d) k v =
     (if k' = k then (k, v) # d else (k', v') # dict_set d k v)"

subsection \<open>The class StateMachine\<close>

type_synonym state_id = string
type_synonym symbol = string
type_synonym edge = "state_id \<times> symbol \<times> state_id"

text \<open>
  The two ways the code raises: the \<^verbatim>\<open>Exception\<close> of the constructor, and the
  \<^verbatim>\<open>KeyError\<close> of a dict subscript with a missing key, which carries the key.
\<close>

datatype error = Exception | KeyError string

record StateMachine =
  states :: "(state_id, (symbol, state_id) dict) dict"
  state :: state_id
  terminal_states :: "state_id set"

text \<open>
  The statement \<^verbatim>\<open>if q not in self.states: self.states[q] = dict()\<close>, which the
  constructor runs for the source and for the destination of each edge.
\<close>

definition register ::
  "(state_id, (symbol, state_id) dict) dict \<Rightarrow> state_id \<Rightarrow>
   (state_id, (symbol, state_id) dict) dict" where
  "register sts q = (if \<not> dict_contains sts q then dict_set sts q [] else sts)"

text \<open>
  The loop of \<^verbatim>\<open>__init__\<close> over the edges. Each edge registers its source and its
  destination, raises when the symbol is already a key of the source's dict, and otherwise
  stores the destination under the symbol. (The subscript \<^verbatim>\<open>self.states[src]\<close> is written
  with its \<^verbatim>\<open>KeyError\<close>, which the registration of the source excludes.)
\<close>

fun add_edges ::
  "(state_id, (symbol, state_id) dict) dict \<Rightarrow> edge list \<Rightarrow>
   error + (state_id, (symbol, state_id) dict) dict" where
  "add_edges sts [] = Inr sts"
| "add_edges sts ((src, symbol, dest) # edges) =
     (let sts1 = register sts src;
          sts2 = register sts1 dest
      in case dict_get sts2 src of
           None \<Rightarrow> Inl (KeyError src)
         | Some out \<Rightarrow>
             if dict_contains out symbol then Inl Exception
             else add_edges (dict_set sts2 src (dict_set out symbol dest)) edges)"

definition StateMachine_init ::
  "edge list \<Rightarrow> state_id \<Rightarrow> state_id list \<Rightarrow> error + StateMachine" where
  "StateMachine_init edges init_state terminals =
     (case add_edges [] edges of
        Inl e \<Rightarrow> Inl e
      | Inr sts \<Rightarrow>
          Inr \<lparr>states = sts, state = init_state, terminal_states = set terminals\<rparr>)"

definition out_edges :: "StateMachine \<Rightarrow> error + (symbol, state_id) dict" where
  "out_edges sm =
     (case dict_get (states sm) (state sm) of
        None \<Rightarrow> Inl (KeyError (state sm))
      | Some out \<Rightarrow> Inr out)"

definition is_terminal :: "StateMachine \<Rightarrow> bool" where
  "is_terminal sm = (state sm \<in> terminal_states sm)"

definition is_stuck :: "StateMachine \<Rightarrow> error + bool" where
  "is_stuck sm =
     (case out_edges sm of Inl e \<Rightarrow> Inl e | Inr out \<Rightarrow> Inr (length out = 0))"

text \<open>
  \<^verbatim>\<open>self.state = self.out_edges()[symbol]\<close>: the right-hand side is evaluated first, so
  when either subscript raises, the assignment has not happened.
\<close>

definition advance :: "StateMachine \<Rightarrow> symbol \<Rightarrow> (error + unit) \<times> StateMachine" where
  "advance sm symbol =
     (case out_edges sm of
        Inl e \<Rightarrow> (Inl e, sm)
      | Inr out \<Rightarrow>
          (case dict_get out symbol of
             None \<Rightarrow> (Inl (KeyError symbol), sm)
           | Some dest \<Rightarrow> (Inr (), sm\<lparr>state := dest\<rparr>)))"

subsection \<open>Assignment 1: check\<close>

text \<open>
  \<^verbatim>\<open>check(sm, string)\<close> reads \<^verbatim>\<open>string[i]\<close> for each index in turn, so it takes any
  sequence of symbols. Subscripting a Python \<^verbatim>\<open>str\<close> gives the one-character string at
  that index: \<open>str_items\<close> is the sequence of symbols that a \<^verbatim>\<open>str\<close> is to \<^verbatim>\<open>check\<close>.
\<close>

definition str_items :: "string \<Rightarrow> symbol list" where
  "str_items s = map (\<lambda>c. [c]) s"

fun check :: "StateMachine \<Rightarrow> symbol list \<Rightarrow> (error + bool) \<times> StateMachine" where
  "check sm [] = (Inr (if is_terminal sm then True else False), sm)"
| "check sm (c # string) =
     (case out_edges sm of
        Inl e \<Rightarrow> (Inl e, sm)
      | Inr out \<Rightarrow>
          if dict_contains out c then
            (case advance sm c of
               (Inl e, sm') \<Rightarrow> (Inl e, sm')
             | (Inr u, sm') \<Rightarrow> check sm' string)
          else (Inr False, sm))"

subsection \<open>Assignment 2: sample and sample2\<close>

text \<open>
  \<^verbatim>\<open>sample2(sm, length, sofar)\<close> with its \<^verbatim>\<open>for edge in sm.out_edges()\<close> loop as
  \<open>sample2_loop\<close>, which carries the loop's variables: the saved \<^verbatim>\<open>state\<close>, the keys
  still to visit and \<^verbatim>\<open>result\<close>. The dict that is iterated is read once, before the
  loop. An exception leaves the loop at once, so the assignment \<^verbatim>\<open>sm.state = state\<close> of
  that iteration is not reached. The length is a natural number, which the recursion
  counts down to 0; a negative length, which never reaches the test \<^verbatim>\<open>length == 0\<close>, is
  not part of the model.
\<close>

fun sample2 :: "StateMachine \<Rightarrow> nat \<Rightarrow> string \<Rightarrow> (error + string list) \<times> StateMachine"
and sample2_loop ::
  "StateMachine \<Rightarrow> nat \<Rightarrow> string \<Rightarrow> state_id \<Rightarrow> symbol list \<Rightarrow> string list \<Rightarrow>
   (error + string list) \<times> StateMachine" where
  "sample2 sm 0 sofar = (if is_terminal sm then (Inr [sofar], sm) else (Inr [], sm))"
| "sample2 sm (Suc n) sofar =
     (case out_edges sm of
        Inl e \<Rightarrow> (Inl e, sm)
      | Inr out \<Rightarrow> sample2_loop sm n sofar (state sm) (dict_keys out) [])"
| "sample2_loop sm n sofar st [] result = (Inr result, sm)"
| "sample2_loop sm n sofar st (edge # edges) result =
     (case advance sm edge of
        (Inl e, sm1) \<Rightarrow> (Inl e, sm1)
      | (Inr u, sm1) \<Rightarrow>
          (case sample2 sm1 n (sofar @ edge) of
             (Inl e, sm2) \<Rightarrow> (Inl e, sm2)
           | (Inr paths, sm2) \<Rightarrow>
               sample2_loop (sm2\<lparr>state := st\<rparr>) n sofar st edges (result @ paths)))"

definition sample :: "StateMachine \<Rightarrow> nat \<Rightarrow> (error + string list) \<times> StateMachine" where
  "sample sm n = sample2 sm n []"

subsection \<open>The machines of the notebook\<close>

text \<open>
  \<^verbatim>\<open>ab_a_\<close> of the introduction and \<^verbatim>\<open>test2()\<close> of assignment 1 (the \<^verbatim>\<open>return\<close> that is not
  commented out), as the constructor calls they are, and the objects these calls return.
\<close>

definition ab_a :: "error + StateMachine" where
  "ab_a = StateMachine_init
     [(''s1'', ''a'', ''s2''), (''s2'', ''b'', ''s3''), (''s3'', ''a'', ''s3'')]
     ''s1'' [''s3'']"

definition ab_a_machine :: StateMachine where
  "ab_a_machine =
     \<lparr>states = [(''s1'', [(''a'', ''s2'')]), (''s2'', [(''b'', ''s3'')]),
                (''s3'', [(''a'', ''s3'')])],
      state = ''s1'', terminal_states = {''s3''}\<rparr>"

definition test2 :: "error + StateMachine" where
  "test2 = StateMachine_init
     [(''s1'', ''x'', ''s2''), (''s2'', ''x'', ''s2''), (''s2'', ''@'', ''s3''),
      (''s3'', ''x'', ''s4''), (''s4'', ''.'', ''s5''), (''s4'', ''x'', ''s4''),
      (''s5'', ''x'', ''s6''), (''s6'', ''x'', ''s6''), (''s6'', ''.'', ''s5'')]
     ''s1'' [''s6'']"

definition test2_machine :: StateMachine where
  "test2_machine =
     \<lparr>states = [(''s1'', [(''x'', ''s2'')]), (''s2'', [(''x'', ''s2''), (''@'', ''s3'')]),
                (''s3'', [(''x'', ''s4'')]), (''s4'', [(''.'', ''s5''), (''x'', ''s4'')]),
                (''s5'', [(''x'', ''s6'')]), (''s6'', [(''x'', ''s6''), (''.'', ''s5'')])],
      state = ''s1'', terminal_states = {''s6''}\<rparr>"

subsection \<open>Notions of the specification\<close>

text \<open>
  The successor of a state along a symbol in the transition table, and the state a
  sequence of symbols leads to from a state: \<open>None\<close> when some symbol of the sequence is
  not an out-edge at the point it is read.
\<close>

definition transition ::
  "(state_id, (symbol, state_id) dict) dict \<Rightarrow> state_id \<Rightarrow> symbol \<Rightarrow> state_id option" where
  "transition sts q c =
     (case dict_get sts q of None \<Rightarrow> None | Some out \<Rightarrow> dict_get out c)"

definition successor :: "StateMachine \<Rightarrow> state_id \<Rightarrow> symbol \<Rightarrow> state_id option" where
  "successor sm q c = transition (states sm) q c"

fun walk :: "StateMachine \<Rightarrow> state_id \<Rightarrow> symbol list \<Rightarrow> state_id option" where
  "walk sm q [] = Some q"
| "walk sm q (c # cs) =
     (case successor sm q c of None \<Rightarrow> None | Some q' \<Rightarrow> walk sm q' cs)"

definition valid_path :: "StateMachine \<Rightarrow> symbol list \<Rightarrow> bool" where
  "valid_path sm p = (walk sm (state sm) p \<noteq> None)"

text \<open>
  The longest prefix of a sequence that is a valid path from the current state
  (\<open>prefixes\<close> lists the prefixes by increasing length, and the empty one is valid).
\<close>

definition longest_valid_prefix :: "StateMachine \<Rightarrow> symbol list \<Rightarrow> symbol list" where
  "longest_valid_prefix sm s = last (filter (valid_path sm) (prefixes s))"

text \<open>
  The edges that a transition table stores, and two conditions on them. A machine is well
  formed when its current state is a key of \<^verbatim>\<open>states\<close> and so is every destination stored
  in it: then every subscript \<^verbatim>\<open>self.states[self.state]\<close> finds its key.
\<close>

definition table_entries :: "(state_id, (symbol, state_id) dict) dict \<Rightarrow> edge list" where
  "table_entries sts = concat (map (\<lambda>(q, out). map (\<lambda>(a, t). (q, a, t)) out) sts)"

definition table_closed :: "(state_id, (symbol, state_id) dict) dict \<Rightarrow> bool" where
  "table_closed sts = list_all (\<lambda>(q, a, t). dict_contains sts t) (table_entries sts)"

definition well_formed :: "StateMachine \<Rightarrow> bool" where
  "well_formed sm = (dict_contains (states sm) (state sm) \<and> table_closed (states sm))"

text \<open>Every symbol of the transition table is a string of one character.\<close>

definition single_char_symbols :: "StateMachine \<Rightarrow> bool" where
  "single_char_symbols sm = list_all (\<lambda>(q, a, t). length a = 1) (table_entries (states sm))"

text \<open>
  The (source, symbol) pair of an edge, and the condition under which the specification
  lets the constructor fail: two edges with the same pair and different destinations.
\<close>

fun edge_key :: "edge \<Rightarrow> state_id \<times> symbol" where
  "edge_key (src, symbol, dest) = (src, symbol)"

definition conflicting_edges :: "edge list \<Rightarrow> bool" where
  "conflicting_edges edges =
     list_ex (\<lambda>(src1, symbol1, dest1).
       list_ex (\<lambda>(src2, symbol2, dest2).
         src1 = src2 \<and> symbol1 = symbol2 \<and> dest1 \<noteq> dest2) edges) edges"

section \<open>Properties\<close>

subsection \<open>Evaluating the machines of the notebook\<close>

lemmas machine_defs =
  out_edges_def advance_def is_terminal_def dict_contains_def dict_get_def dict_keys_def

lemma ab_a_eq: "ab_a = Inr ab_a_machine"
  by (simp add: ab_a_def ab_a_machine_def StateMachine_init_def register_def
      dict_contains_def dict_get_def)

lemma test2_eq: "test2 = Inr test2_machine"
  by (simp add: test2_def test2_machine_def StateMachine_init_def register_def
      dict_contains_def dict_get_def)

text \<open>
  Claim C1, as stated: on a fresh \<^verbatim>\<open>ab_a_\<close> machine (edges s1-a-s2, s2-b-s3, s3-a-s3, initial
  state s1, terminal states s3), \<^verbatim>\<open>check\<close> returns false for "ab". It does not: "ab" leads
  from s1 to s3, which is terminal, so \<^verbatim>\<open>check\<close> returns true.
\<close>

theorem ab_a_rejects_ab_refuted:
  "ab_a = Inr ab_a_machine \<and> fst (check ab_a_machine (str_items ''ab'')) \<noteq> Inr False"
  by (simp add: ab_a_eq) (simp add: ab_a_machine_def str_items_def machine_defs)

text \<open>
  Claim C1, amended: on a fresh \<^verbatim>\<open>ab_a_\<close> machine, \<^verbatim>\<open>check\<close> returns true for "aba", true
  for "ab" and false for "ba".
\<close>

theorem ab_a_check:
  "ab_a = Inr ab_a_machine \<and>
   fst (check ab_a_machine (str_items ''aba'')) = Inr True \<and>
   fst (check ab_a_machine (str_items ''ab'')) = Inr True \<and>
   fst (check ab_a_machine (str_items ''ba'')) = Inr False"
  by (simp add: ab_a_eq) (simp add: ab_a_machine_def str_items_def machine_defs)

text \<open>
  Claim C9: for the machine \<^verbatim>\<open>test2()\<close> (email addresses over x, @ and .), \<^verbatim>\<open>sample\<close> at
  length 5 returns exactly the set of the one string "x@x.x", and at length 6 exactly the
  set of the three strings "x@x.xx", "x@xx.x" and "xx@x.x"; each string is returned once.
\<close>

theorem test2_sample_5_6:
  "test2 = Inr test2_machine \<and>
   (\<exists>paths5 paths6.
      sample test2_machine 5 = (Inr paths5, test2_machine) \<and>
      set paths5 = {''x@x.x''} \<and> length paths5 = 1 \<and>
      sample test2_machine 6 = (Inr paths6, test2_machine) \<and>
      set paths6 = {''x@x.xx'', ''x@xx.x'', ''xx@x.x''} \<and> length paths6 = 3)"
  by (simp add: test2_eq)
     (simp add: test2_machine_def sample_def eval_nat_numeral machine_defs insert_commute)

subsection \<open>advance\<close>

lemma advance_Inr:
  "advance sm c = (Inr u, sm') \<Longrightarrow>
   \<exists>out dest. out_edges sm = Inr out \<and> dict_get out c = Some dest \<and>
     sm' = sm\<lparr>state := dest\<rparr>"
  by (auto simp: advance_def split: sum.splits option.splits)

text \<open>
  Claim C6: when the symbol is not a key of the current out-edge mapping, \<^verbatim>\<open>advance\<close>
  raises (the \<^verbatim>\<open>KeyError\<close> of the symbol) and the machine, its current state included, is
  as before; when the symbol is a key, the current state becomes the successor stored
  under it and nothing else changes. When \<^verbatim>\<open>out_edges\<close> itself raises there is no mapping,
  and \<^verbatim>\<open>advance\<close> raises the same error, the machine unchanged.
\<close>

theorem advance_spec:
  "(\<forall>out. out_edges sm = Inr out \<longrightarrow> dict_get out s = None \<longrightarrow>
      advance sm s = (Inl (KeyError s), sm)) \<and>
   (\<forall>out dest. out_edges sm = Inr out \<longrightarrow> dict_get out s = Some dest \<longrightarrow>
      advance sm s = (Inr (), sm\<lparr>state := dest\<rparr>)) \<and>
   (\<forall>e. out_edges sm = Inl e \<longrightarrow> advance sm s = (Inl e, sm))"
  by (simp add: advance_def)

theorem advance_spec_witness:
  "out_edges ab_a_machine = Inr [(''a'', ''s2'')] \<and>
   dict_get [(''a'', ''s2'')] ''b'' = None \<and>
   advance ab_a_machine ''b'' = (Inl (KeyError ''b''), ab_a_machine) \<and>
   dict_get [(''a'', ''s2'')] ''a'' = Some ''s2'' \<and>
   advance ab_a_machine ''a'' = (Inr (), ab_a_machine\<lparr>state := ''s2''\<rparr>) \<and>
   out_edges (ab_a_machine\<lparr>state := ''s0''\<rparr>) = Inl (KeyError ''s0'') \<and>
   advance (ab_a_machine\<lparr>state := ''s0''\<rparr>) ''a'' =
     (Inl (KeyError ''s0''), ab_a_machine\<lparr>state := ''s0''\<rparr>)"
proof -
  have out: "out_edges ab_a_machine = Inr [(''a'', ''s2'')]"
    by (simp add: ab_a_machine_def out_edges_def dict_get_def)
  have b: "dict_get [(''a'', ''s2'')] ''b'' = (None :: string option)"
    and a: "dict_get [(''a'', ''s2'')] ''a'' = Some ''s2''"
    by (simp_all add: dict_get_def)
  have stray: "out_edges (ab_a_machine\<lparr>state := ''s0''\<rparr>) = Inl (KeyError ''s0'')"
    by (simp add: ab_a_machine_def out_edges_def dict_get_def)
  from advance_spec [of ab_a_machine "''b''"] out b
  have 1: "advance ab_a_machine ''b'' = (Inl (KeyError ''b''), ab_a_machine)"
    by blast
  from advance_spec [of ab_a_machine "''a''"] out a
  have 2: "advance ab_a_machine ''a'' = (Inr (), ab_a_machine\<lparr>state := ''s2''\<rparr>)"
    by blast
  from advance_spec [of "ab_a_machine\<lparr>state := ''s0''\<rparr>" "''a''"] stray
  have 3: "advance (ab_a_machine\<lparr>state := ''s0''\<rparr>) ''a'' =
     (Inl (KeyError ''s0''), ab_a_machine\<lparr>state := ''s0''\<rparr>)"
    by blast
  from out a b stray 1 2 3 show ?thesis by simp
qed

subsection \<open>sample\<close>

text \<open>
  Claim C7: with length 0, \<^verbatim>\<open>sample\<close> returns the list of the empty string alone when the
  current state is a member of the terminal states, and the empty list otherwise (and
  leaves the machine as it is).
\<close>

theorem sample_0:
  "sample sm 0 =
     (Inr (if state sm \<in> terminal_states sm then [''''] else []), sm)"
  by (simp add: sample_def is_terminal_def)

theorem sample_0_witness:
  "state (ab_a_machine\<lparr>state := ''s3''\<rparr>) \<in> terminal_states (ab_a_machine\<lparr>state := ''s3''\<rparr>) \<and>
   sample (ab_a_machine\<lparr>state := ''s3''\<rparr>) 0 =
     (Inr [''''], ab_a_machine\<lparr>state := ''s3''\<rparr>) \<and>
   state ab_a_machine \<notin> terminal_states ab_a_machine \<and>
   sample ab_a_machine 0 = (Inr [], ab_a_machine)"
proof -
  have 1: "state (ab_a_machine\<lparr>state := ''s3''\<rparr>) \<in>
      terminal_states (ab_a_machine\<lparr>state := ''s3''\<rparr>)"
    and 2: "state ab_a_machine \<notin> terminal_states ab_a_machine"
    by (simp_all add: ab_a_machine_def)
  from 1 2 sample_0 [of "ab_a_machine\<lparr>state := ''s3''\<rparr>"] sample_0 [of ab_a_machine]
  show ?thesis by simp
qed

text \<open>
  When \<^verbatim>\<open>sample2\<close> returns, the machine is as it was at the call. For the loop this holds
  from any iteration on, as long as the machine is in the saved state at the head of the
  iteration: every iteration puts it back there.
\<close>

lemma sample2_restores:
  "\<forall>paths sm'. sample2 sm n sofar = (Inr paths, sm') \<longrightarrow> sm' = sm"
  "\<forall>paths sm'. sample2_loop sm n sofar st edges result = (Inr paths, sm') \<longrightarrow>
     state sm = st \<longrightarrow> sm' = sm"
proof (induction sm n sofar and sm n sofar st edges result
    rule: sample2_sample2_loop.induct)
  case (1 sm sofar)
  then show ?case by simp
next
  case (2 sm n sofar)
  then show ?case by (auto split: sum.splits)
next
  case (3 sm n sofar st result)
  then show ?case by simp
next
  case (4 sm n sofar st edge edges result)
  show ?case
  proof (intro allI impI)
    fix paths sm'
    assume run: "sample2_loop sm n sofar st (edge # edges) result = (Inr paths, sm')"
      and st: "state sm = st"
    from run obtain u sm1 where adv: "advance sm edge = (Inr u, sm1)"
      by (auto split: prod.splits sum.splits)
    from run adv obtain ps sm2
      where inner: "sample2 sm1 n (sofar @ edge) = (Inr ps, sm2)"
        and rest: "sample2_loop (sm2\<lparr>state := st\<rparr>) n sofar st edges (result @ ps) =
          (Inr paths, sm')"
      by (auto split: prod.splits sum.splits)
    from adv obtain dest where sm1: "sm1 = sm\<lparr>state := dest\<rparr>"
      using advance_Inr by blast
    from "4.IH"(1) [OF adv [symmetric] refl] inner have "sm2 = sm1" by blast
    with sm1 st have restored: "sm2\<lparr>state := st\<rparr> = sm" by simp
    from "4.IH"(2) [OF adv [symmetric] refl inner [symmetric] refl] rest
    have "sm' = sm2\<lparr>state := st\<rparr>" by simp
    with restored show "sm' = sm" by simp
  qed
qed

subsection \<open>Dicts and the transition table\<close>

lemma dict_get_Nil [simp]: "dict_get [] k = None"
  by (simp add: dict_get_def)

lemma dict_get_set: "dict_get (dict_set d k v) k' = (if k' = k then Some v else dict_get d k')"
  by (induction d k v rule: dict_set.induct) (auto simp: dict_get_def)

lemma dict_contains_get: "dict_contains d k = (dict_get d k \<noteq> None)"
  by (simp add: dict_contains_def dict_get_def)

lemma dict_contains_set: "dict_contains (dict_set d k v) k' = (k' = k \<or> dict_contains d k')"
  by (simp add: dict_contains_get dict_get_set)

lemma dict_contains_keys: "dict_contains d k = (k \<in> set (dict_keys d))"
  by (simp add: dict_contains_def dict_keys_def map_of_eq_None_iff)

lemma dict_get_entry: "dict_get d k = Some v \<Longrightarrow> (k, v) \<in> set d"
  by (simp add: dict_get_def map_of_SomeD)

lemma set_dict_set: "set (dict_set d k v) \<subseteq> insert (k, v) (set d)"
  by (induction d k v rule: dict_set.induct) auto

lemma mem_table_entries:
  "(q, a, t) \<in> set (table_entries sts) = (\<exists>out. (q, out) \<in> set sts \<and> (a, t) \<in> set out)"
  by (auto simp: table_entries_def)

lemma transition_entry: "transition sts q a = Some t \<Longrightarrow> (q, a, t) \<in> set (table_entries sts)"
  by (auto simp: transition_def mem_table_entries split: option.splits dest: dict_get_entry)

lemma table_entries_set:
  "(q, a, t) \<in> set (table_entries (dict_set sts k v)) \<Longrightarrow>
   (q = k \<and> (a, t) \<in> set v) \<or> (q, a, t) \<in> set (table_entries sts)"
  using set_dict_set [of sts k v] by (auto simp: mem_table_entries)

lemma transition_set:
  "transition (dict_set sts k v) q c = (if q = k then dict_get v c else transition sts q c)"
  by (simp add: transition_def dict_get_set)

lemma transition_register: "transition (register sts q) q' c = transition sts q' c"
  by (auto simp: register_def transition_def dict_get_set dict_contains_get split: option.splits)

lemma contains_register: "dict_contains (register sts q) q' = (q' = q \<or> dict_contains sts q')"
  by (auto simp: register_def dict_contains_set)

lemma table_entries_register:
  "(q', a, t) \<in> set (table_entries (register sts q)) \<Longrightarrow> (q', a, t) \<in> set (table_entries sts)"
  by (auto simp: register_def dest: table_entries_set split: if_splits)

subsection \<open>The constructor\<close>

text \<open>One iteration of the constructor's loop.\<close>

lemma add_edges_Cons:
  obtains (raises) "transition sts src symbol \<noteq> None"
      "add_edges sts ((src, symbol, dest) # edges) = Inl Exception"
  | (stores) sts' where "transition sts src symbol = None"
      "add_edges sts ((src, symbol, dest) # edges) = add_edges sts' edges"
      "\<And>q c. transition sts' q c =
         (if q = src \<and> c = symbol then Some dest else transition sts q c)"
      "\<And>q. dict_contains sts' q = (q = src \<or> q = dest \<or> dict_contains sts q)"
      "set (table_entries sts') \<subseteq> insert (src, symbol, dest) (set (table_entries sts))"
proof -
  let ?sts2 = "register (register sts src) dest"
  have "dict_contains ?sts2 src" by (simp add: contains_register)
  then obtain out where out: "dict_get ?sts2 src = Some out"
    by (auto simp: dict_contains_get)
  have tr2: "transition ?sts2 q c = transition sts q c" for q c
    by (simp add: transition_register)
  from out have sym: "transition sts src c = dict_get out c" for c
    using tr2 [of src c] by (simp add: transition_def)
  let ?sts' = "dict_set ?sts2 src (dict_set out symbol dest)"
  show thesis
  proof (cases "transition sts src symbol")
    case (Some t)
    with sym [of symbol] have "dict_get out symbol = Some t" by simp
    with out have "add_edges sts ((src, symbol, dest) # edges) = Inl Exception"
      by (simp add: Let_def dict_contains_get)
    with Some raises show thesis by simp
  next
    case None
    with sym [of symbol] have "dict_get out symbol = None" by simp
    with out have 1: "add_edges sts ((src, symbol, dest) # edges) = add_edges ?sts' edges"
      by (simp add: Let_def dict_contains_get)
    have 2: "transition ?sts' q c = (if q = src \<and> c = symbol then Some dest else transition sts q c)" for q c
      using sym [of c] by (simp add: transition_set dict_get_set tr2)
    have 3: "dict_contains ?sts' q = (q = src \<or> q = dest \<or> dict_contains sts q)" for q
      by (auto simp: dict_contains_set contains_register)
    have 4: "set (table_entries ?sts') \<subseteq> insert (src, symbol, dest) (set (table_entries sts))"
    proof
      fix e assume e: "e \<in> set (table_entries ?sts')"
      obtain q a t where [simp]: "e = (q, a, t)" by (cases e)
      from e have "(q = src \<and> (a, t) \<in> set (dict_set out symbol dest)) \<or>
          (q, a, t) \<in> set (table_entries ?sts2)"
        using table_entries_set by simp
      moreover have "(q, a, t) \<in> set (table_entries sts)" if "(q, a, t) \<in> set (table_entries ?sts2)"
        using that by (blast dest: table_entries_register)
      moreover have "(a, t) = (symbol, dest) \<or> (src, a, t) \<in> set (table_entries sts)"
        if "(a, t) \<in> set (dict_set out symbol dest)"
      proof -
        from that set_dict_set [of out symbol dest] have "(a, t) = (symbol, dest) \<or> (a, t) \<in> set out"
          by auto
        moreover from out have "(src, out) \<in> set ?sts2" by (rule dict_get_entry)
        then have "(src, a, t) \<in> set (table_entries ?sts2)" if "(a, t) \<in> set out"
          using that by (auto simp: mem_table_entries)
        ultimately show ?thesis by (blast dest: table_entries_register)
      qed
      ultimately show "e \<in> insert (src, symbol, dest) (set (table_entries sts))" by auto
    qed
    from stores [OF None 1 2 3 4] show thesis .
  qed
qed

text \<open>The whole loop.\<close>

lemma add_edges_error: "add_edges sts edges = Inl e \<Longrightarrow> e = Exception"
proof (induction edges arbitrary: sts)
  case Nil
  then show ?case by simp
next
  case (Cons ed edges)
  obtain src symbol dest where ed: "ed = (src, symbol, dest)" by (cases ed)
  show ?case
  proof (cases rule: add_edges_Cons [of sts src symbol dest edges])
    case raises
    with Cons.prems ed show ?thesis by simp
  next
    case (stores sts')
    with Cons.prems ed have "add_edges sts' edges = Inl e" by simp
    then show ?thesis by (rule Cons.IH)
  qed
qed

lemma add_edges_raises:
  "(\<exists>e. add_edges sts edges = Inl e) =
   (\<not> distinct (map edge_key edges) \<or>
    (\<exists>ed \<in> set edges. transition sts (fst (edge_key ed)) (snd (edge_key ed)) \<noteq> None))"
proof (induction edges arbitrary: sts)
  case Nil
  then show ?case by simp
next
  case (Cons ed edges)
  obtain src symbol dest where ed: "ed = (src, symbol, dest)" by (cases ed)
  show ?case
  proof (cases rule: add_edges_Cons [of sts src symbol dest edges])
    case raises
    with ed show ?thesis by auto
  next
    case (stores sts')
    have pt: "(transition sts' (fst (edge_key ed')) (snd (edge_key ed')) \<noteq> None) =
        (edge_key ed' = (src, symbol) \<or>
         transition sts (fst (edge_key ed')) (snd (edge_key ed')) \<noteq> None)" for ed'
      by (auto simp: stores(3) prod_eq_iff)
    have "(\<exists>ed' \<in> set edges.
          transition sts' (fst (edge_key ed')) (snd (edge_key ed')) \<noteq> None) =
      ((src, symbol) \<in> edge_key ` set edges \<or>
       (\<exists>ed' \<in> set edges.
          transition sts (fst (edge_key ed')) (snd (edge_key ed')) \<noteq> None))"
      unfolding pt by force
    with Cons.IH [of sts'] stores(1,2) ed show ?thesis by simp
  qed
qed

lemma add_edges_result:
  assumes "add_edges sts edges = Inr sts'"
  shows "transition sts' q c = Some t \<longleftrightarrow> (q, c, t) \<in> set edges \<or> transition sts q c = Some t"
    and "dict_contains sts' q \<longleftrightarrow>
      q \<in> fst ` set edges \<or> q \<in> (snd \<circ> snd) ` set edges \<or> dict_contains sts q"
    and "set (table_entries sts') \<subseteq> set edges \<union> set (table_entries sts)"
  using assms
proof (induction edges arbitrary: sts)
  case Nil
  { case 1 then show ?case by simp }
  { case 2 then show ?case by simp }
  { case 3 then show ?case by simp }
next
  case (Cons ed edges)
  obtain src symbol dest where ed: "ed = (src, symbol, dest)" by (cases ed)
  { case 1
    show ?case
    proof (cases rule: add_edges_Cons [of sts src symbol dest edges])
      case raises
      with 1 ed show ?thesis by simp
    next
      case (stores sts1)
      with 1 ed have "add_edges sts1 edges = Inr sts'" by simp
      from Cons.IH(1) [OF this] stores(1) show ?thesis
        by (auto simp: stores(3) ed)
    qed }
  { case 2
    show ?case
    proof (cases rule: add_edges_Cons [of sts src symbol dest edges])
      case raises
      with 2 ed show ?thesis by simp
    next
      case (stores sts1)
      with 2 ed have "add_edges sts1 edges = Inr sts'" by simp
      from Cons.IH(2) [OF this] show ?thesis
        by (auto simp: stores(4) ed)
    qed }
  { case 3
    show ?case
    proof (cases rule: add_edges_Cons [of sts src symbol dest edges])
      case raises
      with 3 ed show ?thesis by simp
    next
      case (stores sts1)
      with 3 ed have "add_edges sts1 edges = Inr sts'" by simp
      from Cons.IH(3) [OF this] stores(5) show ?thesis
        by (auto simp: ed)
    qed }
qed

lemma init_error_iff:
  "(\<exists>e. StateMachine_init edges init_state terminals = Inl e) = (\<not> distinct (map edge_key edges))"
  using add_edges_raises [of "[]" edges]
  by (auto simp: StateMachine_init_def transition_def dict_get_def split: sum.splits)

lemma init_error: "StateMachine_init edges init_state terminals = Inl e \<Longrightarrow> e = Exception"
  by (auto simp: StateMachine_init_def split: sum.splits dest: add_edges_error)

lemma conflicting_not_distinct:
  "conflicting_edges edges \<Longrightarrow> \<not> distinct (map edge_key edges)"
proof -
  assume "conflicting_edges edges"
  then obtain src symbol dest1 dest2 where
    "(src, symbol, dest1) \<in> set edges" "(src, symbol, dest2) \<in> set edges" "dest1 \<noteq> dest2"
    by (auto simp: conflicting_edges_def list_ex_iff)
  moreover have "edge_key (src, symbol, dest1) = edge_key (src, symbol, dest2)" by simp
  ultimately have "\<not> inj_on edge_key (set edges)"
    unfolding inj_on_def by blast
  then show ?thesis by (simp add: distinct_map)
qed

text \<open>
  Claim C2, as stated: the constructor raises if and only if two edges share the same
  (source, symbol) pair with different destinations, so an edge list whose repeated pairs
  all have the same destination is accepted. It is not: the constructor raises on the
  second edge of a repeated pair without looking at the destination.
\<close>

theorem init_raises_on_duplicate_refuted:
  "StateMachine_init [(''s1'', ''a'', ''s2''), (''s1'', ''a'', ''s2'')] ''s1'' [''s2''] = Inl Exception \<and>
   \<not> conflicting_edges [(''s1'', ''a'', ''s2''), (''s1'', ''a'', ''s2'')]"
  by (simp add: StateMachine_init_def register_def dict_contains_def dict_get_def
      conflicting_edges_def)

text \<open>
  Claim C2, amended: the constructor raises (its \<^verbatim>\<open>Exception\<close>, and nothing else) if and
  only if two edges at different positions of the list share the same (source, symbol)
  pair, whatever their destinations; otherwise it returns a machine in the initial state
  with the given terminal states. In particular it raises when two edges share the pair
  with different destinations.
\<close>

theorem init_raises_iff:
  "(StateMachine_init edges init_state terminals = Inl Exception) =
     (\<not> distinct (map edge_key edges)) \<and>
   (\<exists>sts. StateMachine_init edges init_state terminals =
      Inr \<lparr>states = sts, state = init_state, terminal_states = set terminals\<rparr>) =
     distinct (map edge_key edges) \<and>
   (conflicting_edges edges \<longrightarrow>
      StateMachine_init edges init_state terminals = Inl Exception)"
proof -
  have 1: "(StateMachine_init edges init_state terminals = Inl Exception) =
     (\<not> distinct (map edge_key edges))"
    using init_error_iff [of edges init_state terminals] init_error by blast
  have 2: "(\<exists>sts. StateMachine_init edges init_state terminals =
      Inr \<lparr>states = sts, state = init_state, terminal_states = set terminals\<rparr>) =
     distinct (map edge_key edges)"
    using init_error_iff [of edges init_state terminals]
    by (auto simp: StateMachine_init_def split: sum.splits)
  from 1 2 conflicting_not_distinct show ?thesis by blast
qed

theorem init_raises_iff_witness:
  "\<not> distinct (map edge_key [(''s1'', ''a'', ''s2''), (''s1'', ''a'', ''s2'')]) \<and>
   StateMachine_init [(''s1'', ''a'', ''s2''), (''s1'', ''a'', ''s2'')] ''s1'' [''s2''] = Inl Exception \<and>
   conflicting_edges [(''s1'', ''a'', ''s2''), (''s1'', ''a'', ''s3'')] \<and>
   StateMachine_init [(''s1'', ''a'', ''s2''), (''s1'', ''a'', ''s3'')] ''s1'' [''s2''] = Inl Exception \<and>
   distinct (map edge_key [(''s1'', ''a'', ''s2''), (''s2'', ''a'', ''s2'')]) \<and>
   (\<exists>sts. StateMachine_init [(''s1'', ''a'', ''s2''), (''s2'', ''a'', ''s2'')] ''s1'' [''s2''] =
      Inr \<lparr>states = sts, state = ''s1'', terminal_states = set [''s2'']\<rparr>)"
proof -
  have a: "\<not> distinct (map edge_key [(''s1'', ''a'', ''s2''), (''s1'', ''a'', ''s2'')])"
    by simp
  have b: "conflicting_edges [(''s1'', ''a'', ''s2''), (''s1'', ''a'', ''s3'')]"
    by (simp add: conflicting_edges_def)
  have c: "distinct (map edge_key [(''s1'', ''a'', ''s2''), (''s2'', ''a'', ''s2'')])"
    by simp
  from a b c
    init_raises_iff [of "[(''s1'', ''a'', ''s2''), (''s1'', ''a'', ''s2'')]" "''s1''" "[''s2'']"]
    init_raises_iff [of "[(''s1'', ''a'', ''s2''), (''s1'', ''a'', ''s3'')]" "''s1''" "[''s2'']"]
    init_raises_iff [of "[(''s1'', ''a'', ''s2''), (''s2'', ''a'', ''s2'')]" "''s1''" "[''s2'']"]
  show ?thesis by blast
qed

lemma init_Inr:
  "StateMachine_init edges init_state terminals = Inr sm \<Longrightarrow>
   add_edges [] edges = Inr (states sm) \<and> state sm = init_state \<and>
   terminal_states sm = set terminals"
  by (auto simp: StateMachine_init_def split: sum.splits)

lemma empty_table [simp]:
  "transition [] q c = None" "dict_contains [] q = False" "table_entries [] = []"
  by (simp_all add: transition_def dict_contains_def table_entries_def)

lemma init_transition:
  "StateMachine_init edges init_state terminals = Inr sm \<Longrightarrow>
   (successor sm q c = Some t) = ((q, c, t) \<in> set edges)"
  using add_edges_result(1) [of "[]" edges "states sm" q c t]
  by (simp add: init_Inr successor_def)

lemma init_keys:
  "StateMachine_init edges init_state terminals = Inr sm \<Longrightarrow>
   dict_contains (states sm) q = (q \<in> fst ` set edges \<or> q \<in> (snd \<circ> snd) ` set edges)"
  using add_edges_result(2) [of "[]" edges "states sm" q]
  by (simp add: init_Inr)

lemma init_entries:
  "StateMachine_init edges init_state terminals = Inr sm \<Longrightarrow>
   set (table_entries (states sm)) \<subseteq> set edges"
  using add_edges_result(3) [of "[]" edges "states sm"]
  by (simp add: init_Inr)

lemma init_fields:
  "StateMachine_init edges init_state terminals = Inr sm \<Longrightarrow>
   state sm = init_state \<and> terminal_states sm = set terminals"
  by (simp add: init_Inr)

lemma init_well_formed:
  assumes "StateMachine_init edges init_state terminals = Inr sm"
    and "init_state \<in> fst ` set edges \<or> init_state \<in> (snd \<circ> snd) ` set edges"
  shows "well_formed sm"
proof -
  have "dict_contains (states sm) t" if "(q, a, t) \<in> set (table_entries (states sm))" for q a t
  proof -
    from that init_entries [OF assms(1)] have "(q, a, t) \<in> set edges" by blast
    then have "t \<in> (snd \<circ> snd) ` set edges" by force
    then show ?thesis by (simp add: init_keys [OF assms(1)])
  qed
  then have "table_closed (states sm)"
    by (auto simp: table_closed_def list_all_iff)
  moreover from assms have "dict_contains (states sm) (state sm)"
    by (simp add: init_keys [OF assms(1)] init_fields [OF assms(1)])
  ultimately show ?thesis by (simp add: well_formed_def)
qed

text \<open>
  When the initial state is neither the source nor the destination of an edge, the
  constructor has not registered it, and \<^verbatim>\<open>out_edges\<close> raises the \<^verbatim>\<open>KeyError\<close> of the
  subscript \<^verbatim>\<open>self.states[self.state]\<close>.
\<close>

lemma init_state_missing:
  assumes "StateMachine_init edges init_state terminals = Inr sm"
    and "init_state \<notin> fst ` set edges" "init_state \<notin> (snd \<circ> snd) ` set edges"
  shows "out_edges sm = Inl (KeyError init_state)"
proof -
  from assms have "\<not> dict_contains (states sm) (state sm)"
    by (simp add: init_keys [OF assms(1)] init_fields [OF assms(1)])
  then show ?thesis
    using init_fields [OF assms(1)]
    by (simp add: out_edges_def dict_contains_get)
qed

subsection \<open>Well-formed machines and out_edges\<close>

text \<open>
  On a well-formed machine \<^verbatim>\<open>out_edges\<close> returns a dict, and a valid step or path leads to a
  well-formed machine again. The constructor returns a well-formed machine when the
  initial state is the source or the destination of some edge; then \<^verbatim>\<open>out_edges\<close> returns a
  dict at every state that a valid path from the initial state reaches, the empty dict
  exactly when no edge leaves the state.
\<close>

lemma successor_state_update [simp]: "successor (sm\<lparr>state := x\<rparr>) q c = successor sm q c"
  by (simp add: successor_def)

lemma walk_state_update [simp]: "walk (sm\<lparr>state := x\<rparr>) q p = walk sm q p"
  by (induction p arbitrary: q) (auto split: option.splits)

lemma well_formed_out_edges: "well_formed sm \<Longrightarrow> \<exists>out. out_edges sm = Inr out"
  by (auto simp: well_formed_def out_edges_def dict_contains_get)

lemma well_formed_step:
  assumes "well_formed sm" and "successor sm (state sm) c = Some dest"
  shows "well_formed (sm\<lparr>state := dest\<rparr>)"
proof -
  from assms(2) have "(state sm, c, dest) \<in> set (table_entries (states sm))"
    by (simp add: successor_def transition_entry)
  with assms(1) have "dict_contains (states sm) dest"
    by (auto simp: well_formed_def table_closed_def list_all_iff)
  with assms(1) show ?thesis by (simp add: well_formed_def)
qed

lemma well_formed_walk:
  "well_formed sm \<Longrightarrow> walk sm (state sm) p = Some q \<Longrightarrow> well_formed (sm\<lparr>state := q\<rparr>)"
proof (induction p arbitrary: sm)
  case Nil
  then show ?case by (auto simp: well_formed_def)
next
  case (Cons c p)
  from Cons.prems(2) obtain dest where dest: "successor sm (state sm) c = Some dest"
    and rest: "walk sm dest p = Some q"
    by (auto split: option.splits)
  from Cons.IH [of "sm\<lparr>state := dest\<rparr>"] well_formed_step [OF Cons.prems(1) dest] rest
  show ?case by simp
qed

lemma out_Nil_iff: "(out = []) = (\<forall>c. dict_get out c = None)"
proof (cases out)
  case Nil
  then show ?thesis by simp
next
  case (Cons kv rest)
  then have "dict_get out (fst kv) = Some (snd kv)" by (simp add: dict_get_def)
  with Cons show ?thesis by auto
qed

lemma init_out_edges:
  assumes init: "StateMachine_init edges init_state terminals = Inr sm"
    and start: "init_state \<in> fst ` set edges \<or> init_state \<in> (snd \<circ> snd) ` set edges"
    and path: "walk sm init_state p = Some q"
  shows "\<exists>out. out_edges (sm\<lparr>state := q\<rparr>) = Inr out \<and> (out = []) = (q \<notin> fst ` set edges)"
proof -
  from init_well_formed [OF init start] path init_fields [OF init]
  have "well_formed (sm\<lparr>state := q\<rparr>)" by (simp add: well_formed_walk)
  then obtain out where out: "out_edges (sm\<lparr>state := q\<rparr>) = Inr out"
    using well_formed_out_edges by blast
  then have "dict_get out c = successor sm q c" for c
    by (auto simp: out_edges_def successor_def transition_def split: option.splits)
  then have "(out = []) = (\<forall>c. successor sm q c = None)"
    by (simp add: out_Nil_iff)
  also have "\<dots> = (\<forall>c t. (q, c, t) \<notin> set edges)"
    using init_transition [OF init, of q] by (metis not_Some_eq)
  also have "\<dots> = (q \<notin> fst ` set edges)" by force
  finally show ?thesis using out by simp
qed

text \<open>
  Claim C3 says that \<^verbatim>\<open>out_edges\<close> returns a mapping without error for every constructed
  machine, the empty mapping also when the initial state appears in no edge. The code
  departs from it there: for the machine constructed from no edges with initial state
  s1, \<^verbatim>\<open>out_edges\<close> (and with it \<^verbatim>\<open>is_stuck\<close>) raises \<^verbatim>\<open>KeyError\<close> of s1.
\<close>

theorem out_edges_unregistered_initial_state:
  "StateMachine_init [] ''s1'' [''s1''] =
     Inr \<lparr>states = [], state = ''s1'', terminal_states = {''s1''}\<rparr> \<and>
   out_edges \<lparr>states = [], state = ''s1'', terminal_states = {''s1''}\<rparr> =
     Inl (KeyError ''s1'') \<and>
   is_stuck \<lparr>states = [], state = ''s1'', terminal_states = {''s1''}\<rparr> =
     Inl (KeyError ''s1'')"
  by (simp add: StateMachine_init_def out_edges_def is_stuck_def)

subsection \<open>check\<close>

text \<open>
  One iteration of the loop of \<^verbatim>\<open>check\<close>, and the longest valid prefix computed along
  the string.
\<close>


lemma check_Cons:
  "check sm (c # cs) =
     (case dict_get (states sm) (state sm) of
        None \<Rightarrow> (Inl (KeyError (state sm)), sm)
      | Some out \<Rightarrow>
          (case dict_get out c of
             None \<Rightarrow> (Inr False, sm)
           | Some dest \<Rightarrow> check (sm\<lparr>state := dest\<rparr>) cs))"
  by (simp add: out_edges_def advance_def dict_contains_get split: option.splits)

lemma valid_path_Nil [simp]: "valid_path sm []"
  by (simp add: valid_path_def)

lemma valid_path_Cons:
  "valid_path sm (c # p) =
     (case successor sm (state sm) c of
        None \<Rightarrow> False
      | Some q \<Rightarrow> valid_path (sm\<lparr>state := q\<rparr>) p)"
  by (simp add: valid_path_def split: option.splits)

lemma valid_prefixes_not_Nil: "filter (valid_path sm) (prefixes s) \<noteq> []"
  by (cases s) simp_all

lemma longest_valid_prefix_Nil [simp]: "longest_valid_prefix sm [] = []"
  by (simp add: longest_valid_prefix_def)

lemma longest_valid_prefix_Cons:
  "longest_valid_prefix sm (c # cs) =
     (case successor sm (state sm) c of
        None \<Rightarrow> []
      | Some q \<Rightarrow> c # longest_valid_prefix (sm\<lparr>state := q\<rparr>) cs)"
proof (cases "successor sm (state sm) c")
  case None
  then have "filter (valid_path sm) (map ((#) c) (prefixes cs)) = []"
    by (simp add: filter_map comp_def valid_path_Cons)
  with None show ?thesis by (simp add: longest_valid_prefix_def)
next
  case (Some q)
  then have "filter (valid_path sm) (map ((#) c) (prefixes cs)) =
      map ((#) c) (filter (valid_path (sm\<lparr>state := q\<rparr>)) (prefixes cs))"
    by (simp add: filter_map comp_def valid_path_Cons)
  with Some valid_prefixes_not_Nil [of "sm\<lparr>state := q\<rparr>" cs] show ?thesis
    by (simp add: longest_valid_prefix_def last_map)
qed

lemma longest_valid_prefix_is_prefix: "prefix (longest_valid_prefix sm s) s"
  by (induction s arbitrary: sm) (auto simp: longest_valid_prefix_Cons split: option.splits)

lemma longest_valid_prefix_valid: "valid_path sm (longest_valid_prefix sm s)"
  by (induction s arbitrary: sm)
    (auto simp: longest_valid_prefix_Cons valid_path_Cons split: option.splits)

lemma longest_valid_prefix_longest:
  "prefix p s \<Longrightarrow> valid_path sm p \<Longrightarrow> prefix p (longest_valid_prefix sm s)"
proof (induction s arbitrary: p sm)
  case Nil
  then show ?case by simp
next
  case (Cons c cs)
  show ?case
  proof (cases p)
    case Nil
    then show ?thesis by simp
  next
    case (Cons c' p')
    with Cons.prems(1) have c': "c' = c" and p': "prefix p' cs" by simp_all
    from Cons.prems(2) Cons c' obtain q where q: "successor sm (state sm) c = Some q"
      and valid: "valid_path (sm\<lparr>state := q\<rparr>) p'"
      by (auto simp: valid_path_Cons split: option.splits)
    from Cons.IH [OF p' valid] q Cons c' show ?thesis
      by (simp add: longest_valid_prefix_Cons)
  qed
qed

lemma check_returns:
  "check sm s = (Inr b, sm') \<Longrightarrow>
   walk sm (state sm) (longest_valid_prefix sm s) = Some (state sm') \<and>
   sm' = sm\<lparr>state := state sm'\<rparr> \<and>
   b = (longest_valid_prefix sm s = s \<and> state sm' \<in> terminal_states sm)"
proof (induction s arbitrary: sm)
  case Nil
  then show ?case by (auto simp: is_terminal_def split: if_splits)
next
  case (Cons c cs)
  note run = Cons.prems [unfolded check_Cons]
  from run obtain out where out: "dict_get (states sm) (state sm) = Some out"
    by (auto split: option.splits)
  then have succ: "successor sm (state sm) c = dict_get out c"
    by (simp add: successor_def transition_def)
  show ?case
  proof (cases "dict_get out c")
    case None
    with run out succ show ?thesis
      by (auto simp: longest_valid_prefix_Cons)
  next
    case (Some dest)
    with run out have "check (sm\<lparr>state := dest\<rparr>) cs = (Inr b, sm')"
      by simp
    from Cons.IH [OF this] Some succ show ?thesis
      by (auto simp: longest_valid_prefix_Cons)
  qed
qed

text \<open>
  On a well-formed machine \<^verbatim>\<open>check\<close> never raises: it returns false when some symbol is
  not an out-edge at the point it is read, and otherwise whether the state that the whole
  string leads to is terminal.
\<close>

lemma check_well_formed:
  "well_formed sm \<Longrightarrow>
   fst (check sm s) =
     Inr (case walk sm (state sm) s of None \<Rightarrow> False | Some q \<Rightarrow> q \<in> terminal_states sm)"
proof (induction s arbitrary: sm)
  case Nil
  then show ?case by (simp add: is_terminal_def)
next
  case (Cons c cs)
  from Cons.prems obtain out where out: "dict_get (states sm) (state sm) = Some out"
    by (auto simp: well_formed_def dict_contains_get)
  then have succ: "successor sm (state sm) c = dict_get out c"
    by (simp add: successor_def transition_def)
  show ?case
  proof (cases "dict_get out c")
    case None
    with out succ show ?thesis by (simp add: check_Cons del: check.simps)
  next
    case (Some dest)
    with succ Cons.prems have "well_formed (sm\<lparr>state := dest\<rparr>)"
      by (simp add: well_formed_step)
    from Cons.IH [OF this] Some out succ show ?thesis
      by (simp add: check_Cons del: check.simps split: option.splits)
  qed
qed

text \<open>
  Claim C5 says that for every automaton at its initial state \<^verbatim>\<open>check\<close> returns false,
  without raising, when a symbol of the string is not a valid transition. The code
  departs from it when the initial state appears in no edge: for the machine constructed
  from the edge s1-a-s2 with initial state s0, \<^verbatim>\<open>check\<close> on "a" raises \<^verbatim>\<open>KeyError\<close> of s0
  where the claim has it return false.
\<close>

theorem check_unregistered_initial_state:
  "StateMachine_init [(''s1'', ''a'', ''s2'')] ''s0'' [''s2''] =
     Inr \<lparr>states = [(''s1'', [(''a'', ''s2'')]), (''s2'', [])], state = ''s0'',
          terminal_states = {''s2''}\<rparr> \<and>
   check \<lparr>states = [(''s1'', [(''a'', ''s2'')]), (''s2'', [])], state = ''s0'',
          terminal_states = {''s2''}\<rparr> (str_items ''a'') =
     (Inl (KeyError ''s0''),
      \<lparr>states = [(''s1'', [(''a'', ''s2'')]), (''s2'', [])], state = ''s0'',
       terminal_states = {''s2''}\<rparr>)"
  by (simp add: StateMachine_init_def register_def str_items_def machine_defs)

text \<open>
  Claim C10: \<^verbatim>\<open>check\<close> consumes from the current state of the machine it is given and
  does not restore it. When it returns, the machine differs from the one before the call
  in its current state only, which is the state that the longest valid prefix of the
  string leads to from the current state before the call. So on the \<^verbatim>\<open>ab_a_\<close> machine,
  \<^verbatim>\<open>check\<close> of "ab" leaves the machine in s3, where a second \<^verbatim>\<open>check\<close>, of "a", returns
  true, while \<^verbatim>\<open>check\<close> of "a" on a fresh machine returns false.
\<close>

theorem check_leaves_machine_advanced:
  "(check sm s = (Inr b, sm') \<longrightarrow>
      walk sm (state sm) (longest_valid_prefix sm s) = Some (state sm') \<and>
      sm' = sm\<lparr>state := state sm'\<rparr>) \<and>
   check ab_a_machine (str_items ''ab'') = (Inr True, ab_a_machine\<lparr>state := ''s3''\<rparr>) \<and>
   fst (check (ab_a_machine\<lparr>state := ''s3''\<rparr>) (str_items ''a'')) = Inr True \<and>
   fst (check ab_a_machine (str_items ''a'')) = Inr False"
proof -
  have "check ab_a_machine (str_items ''ab'') = (Inr True, ab_a_machine\<lparr>state := ''s3''\<rparr>)"
    "fst (check (ab_a_machine\<lparr>state := ''s3''\<rparr>) (str_items ''a'')) = Inr True"
    "fst (check ab_a_machine (str_items ''a'')) = Inr False"
    by (simp_all add: ab_a_machine_def str_items_def machine_defs)
  with check_returns [of sm s b sm'] show ?thesis by blast
qed

theorem check_leaves_machine_advanced_witness:
  "check ab_a_machine (str_items ''abb'') = (Inr False, ab_a_machine\<lparr>state := ''s3''\<rparr>) \<and>
   longest_valid_prefix ab_a_machine (str_items ''abb'') = str_items ''ab'' \<and>
   walk ab_a_machine (state ab_a_machine) (str_items ''ab'') = Some ''s3''"
proof -
  have run: "check ab_a_machine (str_items ''abb'') =
      (Inr False, ab_a_machine\<lparr>state := ''s3''\<rparr>)"
    by (simp add: ab_a_machine_def str_items_def machine_defs)
  have lvp: "longest_valid_prefix ab_a_machine (str_items ''abb'') = str_items ''ab''"
    by (simp add: longest_valid_prefix_Cons successor_def transition_def dict_get_def
        ab_a_machine_def str_items_def)
  from check_leaves_machine_advanced [of ab_a_machine "str_items ''abb''" False
      "ab_a_machine\<lparr>state := ''s3''\<rparr>"] run
  have "walk ab_a_machine (state ab_a_machine)
      (longest_valid_prefix ab_a_machine (str_items ''abb'')) = Some ''s3''"
    by simp
  with run lvp show ?thesis by simp
qed

subsection \<open>sample returns accepted strings of the given length\<close>


lemma single_char_step:
  assumes "single_char_symbols sm" and "successor sm (state sm) c = Some dest"
  shows "length c = 1"
proof -
  from assms(2) have "(state sm, c, dest) \<in> set (table_entries (states sm))"
    by (simp add: successor_def transition_entry)
  with assms(1) show ?thesis
    by (auto simp: single_char_symbols_def list_all_iff)
qed

lemma str_items_single: "length c = 1 \<Longrightarrow> str_items (c @ w) = c # str_items w"
  by (cases c) (simp_all add: str_items_def)

lemma advance_successor:
  "advance sm c = (Inr u, sm') \<Longrightarrow>
   \<exists>dest. successor sm (state sm) c = Some dest \<and> sm' = sm\<lparr>state := dest\<rparr>"
  by (auto simp: advance_def out_edges_def successor_def transition_def
      split: sum.splits option.splits)

lemma check_step:
  "successor sm (state sm) c = Some dest \<Longrightarrow> check sm (c # cs) = check (sm\<lparr>state := dest\<rparr>) cs"
  by (auto simp: check_Cons successor_def transition_def simp del: check.simps split: option.splits)

lemma sample2_sound:
  "\<forall>paths sm'. single_char_symbols sm \<longrightarrow> sample2 sm n sofar = (Inr paths, sm') \<longrightarrow>
     (\<forall>p \<in> set paths. \<exists>w. p = sofar @ w \<and> length w = n \<and>
        fst (check sm (str_items w)) = Inr True)"
  "\<forall>paths sm'. single_char_symbols sm \<longrightarrow> state sm = st \<longrightarrow>
     sample2_loop sm n sofar st edges result = (Inr paths, sm') \<longrightarrow>
     (\<forall>p \<in> set paths. p \<in> set result \<or> (\<exists>w. p = sofar @ w \<and> length w = Suc n \<and>
        fst (check sm (str_items w)) = Inr True))"
proof (induction sm n sofar and sm n sofar st edges result
    rule: sample2_sample2_loop.induct)
  case (1 sm sofar)
  then show ?case by (auto simp: str_items_def split: if_splits)
next
  case (2 sm n sofar)
  show ?case
  proof (intro allI impI)
    fix paths sm'
    assume sc: "single_char_symbols sm"
      and run: "sample2 sm (Suc n) sofar = (Inr paths, sm')"
    from run obtain out where out: "out_edges sm = Inr out"
      and loop: "sample2_loop sm n sofar (state sm) (dict_keys out) [] = (Inr paths, sm')"
      by (auto split: sum.splits)
    from "2.IH" [OF out] sc loop
    show "\<forall>p \<in> set paths. \<exists>w. p = sofar @ w \<and> length w = Suc n \<and>
        fst (check sm (str_items w)) = Inr True"
      by fastforce
  qed
next
  case (3 sm n sofar st result)
  then show ?case by simp
next
  case (4 sm n sofar st edge edges result)
  show ?case
  proof (intro allI impI ballI)
    fix paths sm' p
    assume sc: "single_char_symbols sm" and st: "state sm = st"
      and run: "sample2_loop sm n sofar st (edge # edges) result = (Inr paths, sm')"
      and p: "p \<in> set paths"
    from run obtain u sm1 where adv: "advance sm edge = (Inr u, sm1)"
      by (auto split: prod.splits sum.splits)
    from run adv obtain ps sm2
      where inner: "sample2 sm1 n (sofar @ edge) = (Inr ps, sm2)"
        and rest: "sample2_loop (sm2\<lparr>state := st\<rparr>) n sofar st edges (result @ ps) =
          (Inr paths, sm')"
      by (auto split: prod.splits sum.splits)
    from adv obtain dest where dest: "successor sm (state sm) edge = Some dest"
      and sm1: "sm1 = sm\<lparr>state := dest\<rparr>"
      using advance_successor by blast
    from sc sm1 have sc1: "single_char_symbols sm1" by (simp add: single_char_symbols_def)
    from sample2_restores(1) inner have "sm2 = sm1" by blast
    with sm1 st have restored: "sm2\<lparr>state := st\<rparr> = sm" by simp
    from "4.IH"(2) [OF adv [symmetric] refl inner [symmetric] refl] rest sc p
    have "p \<in> set (result @ ps) \<or> (\<exists>w. p = sofar @ w \<and> length w = Suc n \<and>
        fst (check sm (str_items w)) = Inr True)"
      unfolding restored using st by blast
    moreover have "\<exists>w. p = sofar @ w \<and> length w = Suc n \<and>
        fst (check sm (str_items w)) = Inr True" if "p \<in> set ps"
    proof -
      from "4.IH"(1) [OF adv [symmetric] refl] sc1 inner that
      obtain w where w: "p = (sofar @ edge) @ w" "length w = n"
          "fst (check sm1 (str_items w)) = Inr True"
        by blast
      from single_char_step [OF sc dest] have len: "length edge = 1" .
      with w(3) dest sm1 have "fst (check sm (str_items (edge @ w))) = Inr True"
        by (simp add: str_items_single check_step del: check.simps)
      with w(1,2) len show ?thesis by (intro exI [of _ "edge @ w"]) simp
    qed
    ultimately show "p \<in> set result \<or> (\<exists>w. p = sofar @ w \<and> length w = Suc n \<and>
        fst (check sm (str_items w)) = Inr True)"
      by auto
  qed
qed

lemma init_single_char:
  assumes "StateMachine_init edges init_state terminals = Inr sm"
    and "list_all (\<lambda>(src, symbol, dest). length symbol = 1) edges"
  shows "single_char_symbols sm"
  using init_entries [OF assms(1)] assms(2)
  by (auto simp: single_char_symbols_def list_all_iff)

text \<open>
  Claim C4, as stated: every string that \<^verbatim>\<open>sample\<close> returns for length n has length n
  and is accepted by \<^verbatim>\<open>check\<close>. It fails when a symbol is not a single character:
  \<^verbatim>\<open>sample\<close> concatenates the symbols of a path, and \<^verbatim>\<open>check\<close> reads a string one character
  at a time. With the single edge s1-ab-s2, \<^verbatim>\<open>sample\<close> at length 1 returns "ab", of
  length 2, which \<^verbatim>\<open>check\<close> rejects.
\<close>

theorem sample_multi_char_symbol_refuted:
  "StateMachine_init [(''s1'', ''ab'', ''s2'')] ''s1'' [''s2''] =
     Inr \<lparr>states = [(''s1'', [(''ab'', ''s2'')]), (''s2'', [])], state = ''s1'',
          terminal_states = {''s2''}\<rparr> \<and>
   fst (sample \<lparr>states = [(''s1'', [(''ab'', ''s2'')]), (''s2'', [])], state = ''s1'',
          terminal_states = {''s2''}\<rparr> 1) = Inr [''ab''] \<and>
   length ''ab'' \<noteq> (1::nat) \<and>
   fst (check \<lparr>states = [(''s1'', [(''ab'', ''s2'')]), (''s2'', [])], state = ''s1'',
          terminal_states = {''s2''}\<rparr> (str_items ''ab'')) = Inr False"
  by (simp add: StateMachine_init_def register_def sample_def str_items_def machine_defs)

text \<open>
  Claim C4, amended: for every machine whose symbols are all strings of one character
  and every natural number n, every string that \<^verbatim>\<open>sample\<close> returns for length n has length
  exactly n and is accepted by \<^verbatim>\<open>check\<close> run on a copy of the machine in the same current
  state (which \<^verbatim>\<open>sample\<close> has left as it was).
\<close>

theorem sample_sound:
  assumes "single_char_symbols sm" and "sample sm n = (Inr paths, sm')" and "p \<in> set paths"
  shows "length p = n \<and> fst (check sm (str_items p)) = Inr True \<and> sm' = sm"
proof -
  from sample2_sound(1) [of sm n "[]"] assms
  have "length p = n \<and> fst (check sm (str_items p)) = Inr True"
    by (auto simp: sample_def)
  moreover from sample2_restores(1) [of sm n "[]"] assms(2) have "sm' = sm"
    by (auto simp: sample_def)
  ultimately show ?thesis by simp
qed

theorem sample_sound_witness:
  "single_char_symbols test2_machine \<and>
   sample test2_machine 6 = (Inr [''xx@x.x'', ''x@x.xx'', ''x@xx.x''], test2_machine) \<and>
   ''x@xx.x'' \<in> set [''xx@x.x'', ''x@x.xx'', ''x@xx.x''] \<and>
   length ''x@xx.x'' = 6 \<and> fst (check test2_machine (str_items ''x@xx.x'')) = Inr True"
proof -
  have 1: "single_char_symbols test2_machine"
    by (simp add: single_char_symbols_def table_entries_def test2_machine_def)
  have 2: "sample test2_machine 6 = (Inr [''xx@x.x'', ''x@x.xx'', ''x@xx.x''], test2_machine)"
    by (simp add: test2_machine_def sample_def eval_nat_numeral machine_defs)
  have 3: "''x@xx.x'' \<in> set [''xx@x.x'', ''x@x.xx'', ''x@xx.x'']" by simp
  from sample_sound [OF 1 2 3] 1 2 3 show ?thesis by simp
qed

subsection \<open>sample returns, and restores the machine\<close>

text \<open>
  On a well-formed machine \<^verbatim>\<open>sample2\<close> raises nothing and returns, for every length.
\<close>

lemma sample2_returns:
  "well_formed sm \<longrightarrow> (\<exists>paths. sample2 sm n sofar = (Inr paths, sm))"
  "\<forall>out. well_formed sm \<longrightarrow> state sm = st \<longrightarrow> out_edges sm = Inr out \<longrightarrow>
     set edges \<subseteq> set (dict_keys out) \<longrightarrow>
     (\<exists>paths. sample2_loop sm n sofar st edges result = (Inr paths, sm))"
proof (induction sm n sofar and sm n sofar st edges result
    rule: sample2_sample2_loop.induct)
  case (1 sm sofar)
  then show ?case by simp
next
  case (2 sm n sofar)
  show ?case
  proof
    assume wf: "well_formed sm"
    then obtain out where out: "out_edges sm = Inr out"
      using well_formed_out_edges by blast
    from "2.IH" [OF out] wf out show "\<exists>paths. sample2 sm (Suc n) sofar = (Inr paths, sm)"
      by simp
  qed
next
  case (3 sm n sofar st result)
  then show ?case by simp
next
  case (4 sm n sofar st edge edges result)
  show ?case
  proof (intro allI impI)
    fix out
    assume wf: "well_formed sm" and st: "state sm = st" and out: "out_edges sm = Inr out"
      and keys: "set (edge # edges) \<subseteq> set (dict_keys out)"
    from keys have "dict_contains out edge" by (simp add: dict_contains_keys)
    then obtain dest where dest: "dict_get out edge = Some dest"
      by (auto simp: dict_contains_get)
    let ?sm1 = "sm\<lparr>state := dest\<rparr>"
    from out dest have adv: "advance sm edge = (Inr (), ?sm1)"
      by (simp add: advance_def)
    from out dest have "successor sm (state sm) edge = Some dest"
      by (auto simp: out_edges_def successor_def transition_def split: option.splits)
    with wf have wf1: "well_formed ?sm1" by (rule well_formed_step)
    from "4.IH"(1) [OF adv [symmetric] refl] wf1
    obtain ps where inner: "sample2 ?sm1 n (sofar @ edge) = (Inr ps, ?sm1)" by blast
    from st have restored: "?sm1\<lparr>state := st\<rparr> = sm" by simp
    from "4.IH"(2) [OF adv [symmetric] refl inner [symmetric] refl] wf st out keys
    obtain paths where "sample2_loop sm n sofar st edges (result @ ps) = (Inr paths, sm)"
      unfolding restored by auto
    with adv inner restored
    show "\<exists>paths. sample2_loop sm n sofar st (edge # edges) result = (Inr paths, sm)"
      by simp
  qed
qed

lemma sample_returns: "well_formed sm \<Longrightarrow> \<exists>paths. sample sm n = (Inr paths, sm)"
  using sample2_returns(1) [of sm n "[]"] by (simp add: sample_def)

text \<open>
  Claim C8: for every machine and every length, when \<^verbatim>\<open>sample\<close> (or \<^verbatim>\<open>sample2\<close>, with any
  path so far) returns, the machine is the one before the call: neither its current
  state nor anything else has changed. On a well-formed machine it does return.
\<close>

theorem sample_restores_state:
  "(sample sm n = (Inr paths, sm') \<longrightarrow> sm' = sm \<and> state sm' = state sm) \<and>
   (sample2 sm n sofar = (Inr paths2, sm2) \<longrightarrow> sm2 = sm \<and> state sm2 = state sm) \<and>
   (well_formed sm \<longrightarrow> (\<exists>paths3. sample sm n = (Inr paths3, sm)))"
  using sample2_restores(1) [of sm n] sample_returns [of sm n]
  by (auto simp: sample_def)

theorem sample_restores_state_witness:
  "well_formed test2_machine \<and>
   sample test2_machine 7 =
     (Inr [''xxx@x.x'', ''xx@x.xx'', ''xx@xx.x'', ''x@x.xxx'', ''x@x.x.x'', ''x@xx.xx'',
           ''x@xxx.x''], test2_machine) \<and>
   sample2 (test2_machine\<lparr>state := ''s5''\<rparr>) 2 ''x@x.'' =
     (Inr [''x@x.xx''], test2_machine\<lparr>state := ''s5''\<rparr>)"
proof -
  have wf: "well_formed test2_machine"
    by (simp add: well_formed_def table_closed_def table_entries_def dict_contains_def
        test2_machine_def)
  with sample_restores_state [of test2_machine 7] obtain paths
    where run: "sample test2_machine 7 = (Inr paths, test2_machine)"
    by blast
  have "fst (sample test2_machine 7) =
     Inr [''xxx@x.x'', ''xx@x.xx'', ''xx@xx.x'', ''x@x.xxx'', ''x@x.x.x'', ''x@xx.xx'',
          ''x@xxx.x'']"
    by (simp add: test2_machine_def sample_def eval_nat_numeral machine_defs)
  with run have 1: "sample test2_machine 7 =
     (Inr [''xxx@x.x'', ''xx@x.xx'', ''xx@xx.x'', ''x@x.xxx'', ''x@x.x.x'', ''x@xx.xx'',
           ''x@xxx.x''], test2_machine)"
    by simp
  obtain r sm2 where run2: "sample2 (test2_machine\<lparr>state := ''s5''\<rparr>) 2 ''x@x.'' = (r, sm2)"
    by (cases "sample2 (test2_machine\<lparr>state := ''s5''\<rparr>) 2 ''x@x.''")
  have "fst (sample2 (test2_machine\<lparr>state := ''s5''\<rparr>) 2 ''x@x.'') = Inr [''x@x.xx'']"
    by (simp add: test2_machine_def eval_nat_numeral machine_defs)
  with run2 have r: "r = Inr [''x@x.xx'']" by simp
  with run2 sample_restores_state [of "test2_machine\<lparr>state := ''s5''\<rparr>" 2 _ _ "''x@x.''"
      "[''x@x.xx'']" sm2]
  have "sm2 = test2_machine\<lparr>state := ''s5''\<rparr>" by blast
  with wf 1 run2 r show ?thesis by simp
qed

end
